theory Spec2Isabelle
  imports Main
begin

section \<open>Data model\<close>

text \<open>
  The development embeds \<^verbatim>\<open>detect_pins_skewers.py\<close> (class \<^verbatim>\<open>PinSkewerDetector\<close>).
  Squares are Python integers (\<^verbatim>\<open>chess.SQUARES = range(64)\<close>, a1 = 0, h8 = 63), colours
  are booleans as in python-chess (\<^verbatim>\<open>chess.WHITE = True\<close>), piece types are the six
  constants \<^verbatim>\<open>chess.PAWN .. chess.KING\<close>. Printing is not modelled.
\<close>

datatype piece_type = PAWN | KNIGHT | BISHOP | ROOK | QUEEN | KING

record piece =
  piece_type :: piece_type
  color :: bool

text \<open>
  The part of \<^verbatim>\<open>chess.Board\<close> the detectors read is the piece placement and the side to
  move; the remaining fields are the rest of the position state the library keeps.
\<close>

record board =
  pieces :: "int \<Rightarrow> piece option"
  turn :: bool
  castling_rights :: "int list"
  ep_square :: "int option"
  halfmove_clock :: int
  fullmove_number :: int

record move =
  from_square :: int
  to_square :: int
  promotion :: "piece_type option"
  drop_type :: "piece_type option"

text \<open>
  The exceptions that can reach the code: a \<^verbatim>\<open>TypeError\<close> from arithmetic on \<^verbatim>\<open>None\<close>,
  an \<^verbatim>\<open>AssertionError\<close> from the rules library, and whatever the engine raises. A call
  that does not return normally either raised one of them or runs forever.
\<close>

datatype exception = TypeError | AssertionError | EngineError

datatype failure = Raised exception | Diverges

datatype tactic_record =
    Pin (pinned_piece: piece_type) (pinned_square: string)
        (pinning_piece: piece_type) (pinning_square: string) (target: string)
  | Skewer (attacking_piece: piece_type) (attacking_square: string)
        (front_target: piece_type) (front_square: string)
        (back_target: piece_type) (back_square: string)

text \<open>The dictionary returned by \<^verbatim>\<open>find_pinning_piece\<close>.\<close>

record pinning =
  pinner_type :: piece_type
  pinner_square :: string

text \<open>The dictionaries collected in \<^verbatim>\<open>pieces_in_line\<close>.\<close>

record line_entry =
  entry_square :: int
  entry_piece_type :: piece_type
  entry_value :: int

section \<open>Library queries\<close>

definition SQUARES :: "int list" where
  "SQUARES = [0..63]"

definition BB_ALL :: "int set" where
  "BB_ALL = {0..63}"

definition square_file :: "int \<Rightarrow> int" where
  "square_file square = square mod 8"

definition square_rank :: "int \<Rightarrow> int" where
  "square_rank square = square div 8"

definition FILE_NAMES :: string where
  "FILE_NAMES = ''abcdefgh''"

definition RANK_NAMES :: string where
  "RANK_NAMES = ''12345678''"

text \<open>
  \<^verbatim>\<open>chess.square_name\<close>, the file letter followed by the rank digit. It is only called
  on squares that passed the test \<^verbatim>\<open>0 <= square < 64\<close> or come from \<^verbatim>\<open>chess.SQUARES\<close>.
\<close>

definition square_name :: "int \<Rightarrow> string" where
  "square_name square =
     [FILE_NAMES ! nat (square_file square), RANK_NAMES ! nat (square_rank square)]"

definition piece_at :: "board \<Rightarrow> int \<Rightarrow> piece option" where
  "piece_at b square = pieces b square"

text \<open>
  \<^verbatim>\<open>Board.king(color)\<close>: the most significant bit of the mask of kings of that colour,
  \<^verbatim>\<open>None\<close> when the mask is empty. (The library also masks out promoted pieces; a king is
  never one in standard chess.)
\<close>

definition king :: "board \<Rightarrow> bool \<Rightarrow> int option" where
  "king b c =
     (case filter (\<lambda>s. piece_at b s = Some \<lparr>piece_type = KING, color = c\<rparr>) (rev SQUARES) of
        [] \<Rightarrow> None
      | s # _ \<Rightarrow> Some s)"

text \<open>
  The attack tables of the library on an empty board, \<^verbatim>\<open>BB_FILE_ATTACKS[k][0]\<close>,
  \<^verbatim>\<open>BB_RANK_ATTACKS[k][0]\<close> and \<^verbatim>\<open>BB_DIAG_ATTACKS[k][0]\<close>: the squares a slider on
  \<open>k\<close> reaches, which never include \<open>k\<close> itself.
\<close>

definition file_attacks :: "int \<Rightarrow> int set" where
  "file_attacks k = Set.filter (\<lambda>s. square_file s = square_file k \<and> s \<noteq> k) BB_ALL"

definition rank_attacks :: "int \<Rightarrow> int set" where
  "rank_attacks k = Set.filter (\<lambda>s. square_rank s = square_rank k \<and> s \<noteq> k) BB_ALL"

definition diag_attacks :: "int \<Rightarrow> int set" where
  "diag_attacks k =
     Set.filter (\<lambda>s. \<bar>square_file s - square_file k\<bar> = \<bar>square_rank s - square_rank k\<bar> \<and> s \<noteq> k)
       BB_ALL"

definition aligned :: "int \<Rightarrow> int \<Rightarrow> bool" where
  "aligned a b \<longleftrightarrow> b \<in> file_attacks a \<or> b \<in> rank_attacks a \<or> b \<in> diag_attacks a"

text \<open>\<^verbatim>\<open>chess.ray(a, b)\<close>: the whole line through two aligned squares, else empty.\<close>

definition ray :: "int \<Rightarrow> int \<Rightarrow> int set" where
  "ray a b =
     (if aligned a b then
        Set.filter (\<lambda>s. (square_file s - square_file a) * (square_rank b - square_rank a) =
                        (square_rank s - square_rank a) * (square_file b - square_file a)) BB_ALL
      else {})"

text \<open>\<^verbatim>\<open>chess.between(a, b)\<close>: the squares of the ray strictly between the two.\<close>

definition between :: "int \<Rightarrow> int \<Rightarrow> int set" where
  "between a b = Set.filter (\<lambda>s. min a b < s \<and> s < max a b) (ray a b)"

definition occupied :: "board \<Rightarrow> int set" where
  "occupied b = Set.filter (\<lambda>s. piece_at b s \<noteq> None) BB_ALL"

text \<open>The enemy sliders of the given kinds, \<^verbatim>\<open>sliders & self.occupied_co[not color]\<close>.\<close>

definition enemy_sliders :: "board \<Rightarrow> bool \<Rightarrow> piece_type list \<Rightarrow> int set" where
  "enemy_sliders b c kinds =
     Set.filter (\<lambda>s. case piece_at b s of
                       None \<Rightarrow> False
                     | Some p \<Rightarrow> color p = (\<not> c) \<and> piece_type p \<in> set kinds) BB_ALL"

text \<open>
  The inner loop of \<^verbatim>\<open>Board.pin_mask\<close> over the snipers of one line, from the highest
  square down (\<^verbatim>\<open>scan_reversed\<close>): the first sniper with only \<open>square\<close> between it and the
  king gives the ray, and without one the whole board is returned.
\<close>

fun scan_snipers :: "board \<Rightarrow> int \<Rightarrow> int \<Rightarrow> int list \<Rightarrow> int set" where
  "scan_snipers b k square [] = BB_ALL"
| "scan_snipers b k square (sniper # rest) =
     (if between sniper k \<inter> (occupied b \<union> {square}) = {square} then ray k sniper
      else scan_snipers b k square rest)"

text \<open>
  \<^verbatim>\<open>Board.pin_mask(color, square)\<close> of python-chess: the mask of the line on which
  \<open>square\<close> is absolutely pinned to the king of \<open>color\<close>, and the whole board when it is
  not pinned or there is no king. The lines are tried in the order file, rank, diagonal
  and only the first line that holds \<open>square\<close> is scanned. The second argument is an
  \<^verbatim>\<open>Optional\<close> because the caller passes the result of \<^verbatim>\<open>Board.king\<close>.
\<close>

definition pin_mask :: "board \<Rightarrow> bool \<Rightarrow> int option \<Rightarrow> failure + int set" where
  "pin_mask b c square_opt =
     (case king b c of
        None \<Rightarrow> Inr BB_ALL
      | Some k \<Rightarrow>
          (case square_opt of
             None \<Rightarrow> Inl (Raised TypeError)
           | Some square \<Rightarrow>
               Inr (if square \<in> file_attacks k then
                      scan_snipers b k square
                        (filter (\<lambda>s. s \<in> file_attacks k \<inter> enemy_sliders b c [ROOK, QUEEN]) (rev SQUARES))
                    else if square \<in> rank_attacks k then
                      scan_snipers b k square
                        (filter (\<lambda>s. s \<in> rank_attacks k \<inter> enemy_sliders b c [ROOK, QUEEN]) (rev SQUARES))
                    else if square \<in> diag_attacks k then
                      scan_snipers b k square
                        (filter (\<lambda>s. s \<in> diag_attacks k \<inter> enemy_sliders b c [BISHOP, QUEEN]) (rev SQUARES))
                    else BB_ALL)))"

section \<open>The detector\<close>

text \<open>\<^verbatim>\<open>self.piece_values\<close>: a dictionary with a key for each of the six piece types.\<close>

fun piece_values :: "piece_type \<Rightarrow> int" where
  "piece_values PAWN = 1"
| "piece_values KNIGHT = 3"
| "piece_values BISHOP = 3"
| "piece_values ROOK = 5"
| "piece_values QUEEN = 9"
| "piece_values KING = 100"

text \<open>
  A \<^verbatim>\<open>for\<close> loop that extends a result list with what its body yields for each element,
  in order; an exception in the body leaves the loop.
\<close>

fun collect :: "('a \<Rightarrow> failure + 'b list) \<Rightarrow> 'a list \<Rightarrow> failure + 'b list" where
  "collect body [] = Inr []"
| "collect body (x # xs) =
     (case body x of
        Inl e \<Rightarrow> Inl e
      | Inr ys \<Rightarrow> (case collect body xs of Inl e \<Rightarrow> Inl e | Inr zs \<Rightarrow> Inr (ys @ zs)))"

definition can_piece_pin :: "piece_type \<Rightarrow> int \<Rightarrow> int \<Rightarrow> bool" where
  "can_piece_pin pt file_diff rank_diff =
     (if pt = QUEEN then True
      else if pt = ROOK then file_diff = 0 \<or> rank_diff = 0
      else if pt = BISHOP then \<bar>file_diff\<bar> = \<bar>rank_diff\<bar>
      else False)"

text \<open>
  The \<^verbatim>\<open>while True\<close> loop of \<^verbatim>\<open>find_pinning_piece\<close>. It steps by
  \<open>- file_diff - 8 * rank_diff\<close> on the square index and stops on leaving \<open>[0, 64)\<close> or on
  the first occupied square. With a zero step on an empty square it never ends, which
  is the value \<open>None\<close> here; \<open>Some r\<close> is the value the loop leaves to \<^verbatim>\<open>return\<close>.
\<close>

partial_function (option) pin_search ::
  "board \<Rightarrow> int \<Rightarrow> int \<Rightarrow> int \<Rightarrow> pinning option option" where
  "pin_search b file_diff rank_diff current_square =
     (let current = current_square - file_diff - 8 * rank_diff in
      if \<not> (0 \<le> current \<and> current < 64) then Some None
      else (case piece_at b current of
              Some p \<Rightarrow>
                (if color p \<noteq> turn b then
                   (if can_piece_pin (piece_type p) file_diff rank_diff then
                      Some (Some \<lparr>pinner_type = piece_type p, pinner_square = square_name current\<rparr>)
                    else Some None)
                 else Some None)
            | None \<Rightarrow> pin_search b file_diff rank_diff current))"

declare pin_search.simps [code]

text \<open>
  \<^verbatim>\<open>find_pinning_piece\<close>. The king square is what \<^verbatim>\<open>Board.king\<close> returned; on \<^verbatim>\<open>None\<close>
  the call \<^verbatim>\<open>chess.square_file(king_square)\<close> raises a \<^verbatim>\<open>TypeError\<close>. Python's \<^verbatim>\<open>//\<close> is
  floor division, as \<open>div\<close> on \<open>int\<close>.
\<close>

definition find_pinning_piece :: "board \<Rightarrow> int \<Rightarrow> int option \<Rightarrow> failure + pinning option" where
  "find_pinning_piece b pinned_sq king_square_opt =
     (case king_square_opt of
        None \<Rightarrow> Inl (Raised TypeError)
      | Some king_square \<Rightarrow>
          (let file_diff0 = square_file king_square - square_file pinned_sq;
               rank_diff0 = square_rank king_square - square_rank pinned_sq;
               file_diff = (if file_diff0 \<noteq> 0 then file_diff0 div \<bar>file_diff0\<bar> else file_diff0);
               rank_diff = (if rank_diff0 \<noteq> 0 then rank_diff0 div \<bar>rank_diff0\<bar> else rank_diff0)
           in case pin_search b file_diff rank_diff pinned_sq of
                None \<Rightarrow> Inl Diverges
              | Some r \<Rightarrow> Inr r))"

text \<open>The body of the loop over \<^verbatim>\<open>chess.SQUARES\<close> in \<^verbatim>\<open>detect_pins\<close>.\<close>

definition pins_at :: "board \<Rightarrow> int set \<Rightarrow> int \<Rightarrow> failure + tactic_record list" where
  "pins_at b pin_mask_bb square =
     (if square \<in> pin_mask_bb then
        (case piece_at b square of
           None \<Rightarrow> Inr []
         | Some p \<Rightarrow>
             (if color p = turn b then
                (case find_pinning_piece b square (king b (turn b)) of
                   Inl e \<Rightarrow> Inl e
                 | Inr None \<Rightarrow> Inr []
                 | Inr (Some pp) \<Rightarrow>
                     Inr [Pin (piece_type p) (square_name square)
                            (pinner_type pp) (pinner_square pp) ''king''])
              else Inr []))
      else Inr [])"

definition detect_pins :: "board \<Rightarrow> failure + tactic_record list" where
  "detect_pins b =
     (case pin_mask b (turn b) (king b (turn b)) of
        Inl e \<Rightarrow> Inl e
      | Inr pin_mask_bb \<Rightarrow> collect (pins_at b pin_mask_bb) SQUARES)"

text \<open>
  The \<^verbatim>\<open>while True\<close> loop of \<^verbatim>\<open>find_skewers_from_piece\<close> for one direction: it steps by
  \<open>file_diff + 8 * rank_diff\<close> on the square index, collects the pieces of the other
  colour, and stops on leaving \<open>[0, 64)\<close>, on a piece of the attacker's colour, or with
  two pieces collected.
\<close>

partial_function (option) skewer_walk ::
  "board \<Rightarrow> bool \<Rightarrow> int \<Rightarrow> int \<Rightarrow> int \<Rightarrow> line_entry list \<Rightarrow> line_entry list option" where
  "skewer_walk b attacker_color file_diff rank_diff current_square pieces_in_line =
     (let current = current_square + file_diff + 8 * rank_diff in
      if \<not> (0 \<le> current \<and> current < 64) then Some pieces_in_line
      else (case piece_at b current of
              Some target_piece \<Rightarrow>
                (if color target_piece \<noteq> attacker_color then
                   (let line = pieces_in_line @
                          [\<lparr>entry_square = current,
                            entry_piece_type = piece_type target_piece,
                            entry_value = piece_values (piece_type target_piece)\<rparr>]
                    in if length line = 2 then Some line
                       else skewer_walk b attacker_color file_diff rank_diff current line)
                 else Some pieces_in_line)
            | None \<Rightarrow> skewer_walk b attacker_color file_diff rank_diff current pieces_in_line))"

declare skewer_walk.simps [code]

text \<open>The directions \<^verbatim>\<open>find_skewers_from_piece\<close> scans for a piece type.\<close>

definition directions :: "piece_type \<Rightarrow> (int \<times> int) list" where
  "directions pt =
     (if pt \<in> set [QUEEN, ROOK] then [(0, 1), (0, -1), (1, 0), (-1, 0)] else []) @
     (if pt \<in> set [QUEEN, BISHOP] then [(1, 1), (1, -1), (-1, 1), (-1, -1)] else [])"

text \<open>The body of the loop over the directions.\<close>

definition skewers_in_direction ::
  "board \<Rightarrow> int \<Rightarrow> piece \<Rightarrow> int \<times> int \<Rightarrow> failure + tactic_record list" where
  "skewers_in_direction b piece_square p direction =
     (case skewer_walk b (color p) (fst direction) (snd direction) piece_square [] of
        None \<Rightarrow> Inl Diverges
      | Some [front_piece, back_piece] \<Rightarrow>
          (if entry_value front_piece > entry_value back_piece then
             Inr [Skewer (piece_type p) (square_name piece_square)
                    (entry_piece_type front_piece) (square_name (entry_square front_piece))
                    (entry_piece_type back_piece) (square_name (entry_square back_piece))]
           else Inr [])
      | Some _ \<Rightarrow> Inr [])"

definition find_skewers_from_piece :: "board \<Rightarrow> int \<Rightarrow> piece \<Rightarrow> failure + tactic_record list" where
  "find_skewers_from_piece b piece_square p =
     collect (skewers_in_direction b piece_square p) (directions (piece_type p))"

definition sliding_pieces :: "piece_type list" where
  "sliding_pieces = [QUEEN, ROOK, BISHOP]"

definition skewers_at :: "board \<Rightarrow> int \<Rightarrow> failure + tactic_record list" where
  "skewers_at b square =
     (case piece_at b square of
        None \<Rightarrow> Inr []
      | Some p \<Rightarrow>
          (if color p = turn b \<and> piece_type p \<in> set sliding_pieces then
             find_skewers_from_piece b square p
           else Inr []))"

definition detect_skewers :: "board \<Rightarrow> failure + tactic_record list" where
  "detect_skewers b = collect (skewers_at b) SQUARES"

section \<open>Moves, the rules library and the engine\<close>

text \<open>
  \<^verbatim>\<open>Move.__bool__\<close> of python-chess: a move is false exactly when it is the null move.
  (The record field \<open>drop_type\<close> is the attribute \<^verbatim>\<open>drop\<close>.)
\<close>

definition move_bool :: "move \<Rightarrow> bool" where
  "move_bool m \<longleftrightarrow>
     \<not> (from_square m = 0 \<and> to_square m = 0 \<and> promotion m = None \<and> drop_type m = None)"

text \<open>
  The rules of chess are the library's, and are parameters here: \<open>push\<close> is the position
  after \<^verbatim>\<open>Board.push\<close> (which can raise on a move that is not pseudo-legal),
  \<open>is_legal\<close> is \<^verbatim>\<open>Board.is_legal\<close> and \<open>is_game_over\<close> is \<^verbatim>\<open>Board.is_game_over\<close>.
\<close>

record chesslib =
  push :: "board \<Rightarrow> move \<Rightarrow> exception + board"
  is_legal :: "board \<Rightarrow> move \<Rightarrow> bool"
  is_game_over :: "board \<Rightarrow> bool"

text \<open>
  The engine is a parameter as well: \<open>analyse\<close> takes the state of the engine process
  and a position and gives either an exception or the value of \<^verbatim>\<open>result.get('pv')\<close>,
  together with the state of the engine afterwards. (The search has a time limit.)
\<close>

type_synonym 'e engine = "'e \<Rightarrow> board \<Rightarrow> (exception + move list option) \<times> 'e"

text \<open>\<^verbatim>\<open>get_best_move\<close>: every exception is caught and becomes \<^verbatim>\<open>None\<close>.\<close>

definition get_best_move :: "'e engine \<Rightarrow> 'e \<Rightarrow> board \<Rightarrow> move option \<times> 'e" where
  "get_best_move analyse eng b =
     (case analyse eng b of
        (Inl e, eng') \<Rightarrow> (None, eng')
      | (Inr None, eng') \<Rightarrow> (None, eng')
      | (Inr (Some []), eng') \<Rightarrow> (None, eng')
      | (Inr (Some (m # _)), eng') \<Rightarrow> (Some m, eng'))"

section \<open>Evaluating a move\<close>

text \<open>
  \<^verbatim>\<open>move_creates_pin_or_skewer\<close> on the value of the board: the copy is the position
  after the move, and both detectors run on it.
\<close>

definition move_creates_pin_or_skewer ::
  "chesslib \<Rightarrow> board \<Rightarrow> move \<Rightarrow> failure + tactic_record list" where
  "move_creates_pin_or_skewer lib b m =
     (case push lib b m of
        Inl x \<Rightarrow> Inl (Raised x)
      | Inr board_copy \<Rightarrow>
          (case detect_pins board_copy of
             Inl e \<Rightarrow> Inl e
           | Inr pins \<Rightarrow>
               (case detect_skewers board_copy of
                  Inl e \<Rightarrow> Inl e
                | Inr skewers \<Rightarrow> Inr (pins @ skewers))))"

text \<open>
  The same function on a store of board objects, where an address is an index into the
  store: \<^verbatim>\<open>board.copy()\<close> allocates a new object with the value of the old one, and
  \<^verbatim>\<open>push\<close> writes the object it is called on. When \<^verbatim>\<open>push\<close> raises, the local copy
  is unreachable and is left as it was.
\<close>

type_synonym store = "board list"

definition copy_board :: "store \<Rightarrow> nat \<Rightarrow> store \<times> nat" where
  "copy_board st a = (st @ [st ! a], length st)"

definition push_at :: "chesslib \<Rightarrow> store \<Rightarrow> nat \<Rightarrow> move \<Rightarrow> failure + store" where
  "push_at lib st a m =
     (case push lib (st ! a) m of Inl x \<Rightarrow> Inl (Raised x) | Inr b' \<Rightarrow> Inr (st[a := b']))"

definition move_creates_pin_or_skewer_store ::
  "chesslib \<Rightarrow> store \<Rightarrow> nat \<Rightarrow> move \<Rightarrow> (failure + tactic_record list) \<times> store" where
  "move_creates_pin_or_skewer_store lib st a m =
     (case copy_board st a of
        (st1, board_copy) \<Rightarrow>
          (case push_at lib st1 board_copy m of
             Inl e \<Rightarrow> (Inl e, st1)
           | Inr st2 \<Rightarrow>
               (case detect_pins (st2 ! board_copy) of
                  Inl e \<Rightarrow> (Inl e, st2)
                | Inr pins \<Rightarrow>
                    (case detect_skewers (st2 ! board_copy) of
                       Inl e \<Rightarrow> (Inl e, st2)
                     | Inr skewers \<Rightarrow> (Inr (pins @ skewers), st2)))))"

section \<open>Analysing a position\<close>

record position_result =
  executed :: "tactic_record list"
  missed :: "tactic_record list"
  allowed :: "tactic_record list"

text \<open>\<^verbatim>\<open>if ts: result[category].extend(ts)\<close> on a category that is still empty.\<close>

definition extend_if :: "tactic_record list \<Rightarrow> tactic_record list" where
  "extend_if ts = (if ts \<noteq> [] then [] @ ts else [])"

text \<open>The block that fills \<^verbatim>\<open>result['missed']\<close>.\<close>

definition missed_tactics ::
  "chesslib \<Rightarrow> board \<Rightarrow> move \<Rightarrow> move option \<Rightarrow> failure + tactic_record list" where
  "missed_tactics lib b player_move best_move =
     (case best_move of
        None \<Rightarrow> Inr []
      | Some bm \<Rightarrow>
          (if move_bool bm \<and> bm \<noteq> player_move then
             (case move_creates_pin_or_skewer lib b bm of
                Inl e \<Rightarrow> Inl e
              | Inr best_move_tactics \<Rightarrow> Inr (extend_if best_move_tactics))
           else Inr []))"

text \<open>The block that fills \<^verbatim>\<open>result['allowed']\<close>, with its second query of the engine.\<close>

definition allowed_tactics ::
  "chesslib \<Rightarrow> 'e engine \<Rightarrow> 'e \<Rightarrow> board \<Rightarrow> (failure + tactic_record list) \<times> 'e" where
  "allowed_tactics lib analyse eng board_after_move =
     (if \<not> is_game_over lib board_after_move then
        (case get_best_move analyse eng board_after_move of
           (None, eng') \<Rightarrow> (Inr [], eng')
         | (Some opponent_best, eng') \<Rightarrow>
             (if move_bool opponent_best then
                (case move_creates_pin_or_skewer lib board_after_move opponent_best of
                   Inl e \<Rightarrow> (Inl e, eng')
                 | Inr opponent_tactics \<Rightarrow> (Inr (extend_if opponent_tactics), eng'))
              else (Inr [], eng')))
      else (Inr [], eng))"

definition analyze_position ::
  "chesslib \<Rightarrow> 'e engine \<Rightarrow> 'e \<Rightarrow> board \<Rightarrow> move option \<Rightarrow> (failure + position_result) \<times> 'e" where
  "analyze_position lib analyse eng b player_move_opt =
     (case player_move_opt of
        None \<Rightarrow> (Inr \<lparr>executed = [], missed = [], allowed = []\<rparr>, eng)
      | Some player_move \<Rightarrow>
          (if \<not> move_bool player_move then
             (Inr \<lparr>executed = [], missed = [], allowed = []\<rparr>, eng)
           else
             (case get_best_move analyse eng b of
                (best_move, eng1) \<Rightarrow>
                  (case move_creates_pin_or_skewer lib b player_move of
                     Inl e \<Rightarrow> (Inl e, eng1)
                   | Inr player_tactics \<Rightarrow>
                       (case missed_tactics lib b player_move best_move of
                          Inl e \<Rightarrow> (Inl e, eng1)
                        | Inr best_move_tactics \<Rightarrow>
                            (case push lib b player_move of
                               Inl x \<Rightarrow> (Inl (Raised x), eng1)
                             | Inr board_after_move \<Rightarrow>
                                 (case allowed_tactics lib analyse eng1 board_after_move of
                                    (Inl e, eng2) \<Rightarrow> (Inl e, eng2)
                                  | (Inr opponent_tactics, eng2) \<Rightarrow>
                                      (Inr \<lparr>executed = extend_if player_tactics,
                                            missed = best_move_tactics,
                                            allowed = opponent_tactics\<rparr>, eng2))))))))"

section \<open>Analysing a game and a file of games\<close>

text \<open>A tactic dictionary after the keys \<^verbatim>\<open>move_number\<close> and \<^verbatim>\<open>color\<close> were added.\<close>

record tagged =
  base :: tactic_record
  move_number :: int
  color_name :: string

record game_result =
  game_executed :: "tagged list"
  game_missed :: "tagged list"
  game_allowed :: "tagged list"

text \<open>What the code uses of a \<^verbatim>\<open>chess.pgn.Game\<close>: its starting board and its mainline.\<close>

record game =
  starting_board :: board
  mainline_moves :: "move list"

definition tag :: "int \<Rightarrow> bool \<Rightarrow> tactic_record \<Rightarrow> tagged" where
  "tag n t r = \<lparr>base = r, move_number = n, color_name = (if t then ''white'' else ''black'')\<rparr>"

definition add_tagged :: "game_result \<Rightarrow> position_result \<Rightarrow> int \<Rightarrow> bool \<Rightarrow> game_result" where
  "add_tagged game_res position_res n t =
     \<lparr>game_executed = game_executed game_res @ map (tag n t) (executed position_res),
      game_missed = game_missed game_res @ map (tag n t) (missed position_res),
      game_allowed = game_allowed game_res @ map (tag n t) (allowed position_res)\<rparr>"

text \<open>
  The loop of \<^verbatim>\<open>analyze_game\<close> over the mainline, with the state it carries: the board,
  the move number, the result so far and the engine.
\<close>

fun analyze_moves ::
  "chesslib \<Rightarrow> 'e engine \<Rightarrow> board \<Rightarrow> int \<Rightarrow> game_result \<Rightarrow> 'e \<Rightarrow> move list \<Rightarrow>
   (failure + game_result) \<times> 'e" where
  "analyze_moves lib analyse b n game_res eng [] = (Inr game_res, eng)"
| "analyze_moves lib analyse b n game_res eng (m # ms) =
     (if is_legal lib b m then
        (case analyze_position lib analyse eng b (Some m) of
           (Inl e, eng') \<Rightarrow> (Inl e, eng')
         | (Inr position_res, eng') \<Rightarrow>
             (case push lib b m of
                Inl x \<Rightarrow> (Inl (Raised x), eng')
              | Inr b' \<Rightarrow>
                  analyze_moves lib analyse b' (if turn b' then n + 1 else n)
                    (add_tagged game_res position_res n (turn b)) eng' ms))
      else (Inr game_res, eng))"

definition analyze_game ::
  "chesslib \<Rightarrow> 'e engine \<Rightarrow> 'e \<Rightarrow> game \<Rightarrow> (failure + game_result) \<times> 'e" where
  "analyze_game lib analyse eng g =
     analyze_moves lib analyse (starting_board g) 1
       \<lparr>game_executed = [], game_missed = [], game_allowed = []\<rparr> eng (mainline_moves g)"

text \<open>Python's \<^verbatim>\<open>str\<close> on a natural number, for the keys \<^verbatim>\<open>game_1\<close>, \<^verbatim>\<open>game_2\<close>, ...\<close>

definition digit_char :: "nat \<Rightarrow> char" where
  "digit_char d = ''0123456789'' ! d"

fun str_nat :: "nat \<Rightarrow> string" where
  "str_nat n = (if n < 10 then [digit_char n] else str_nat (n div 10) @ [digit_char (n mod 10)])"

declare str_nat.simps [simp del]

text \<open>
  The \<^verbatim>\<open>while game_count < 5\<close> loop of \<^verbatim>\<open>analyze_pgn_file\<close>. The open file is the list
  of the games still to be read: \<^verbatim>\<open>read_game\<close> takes the first, and gives \<^verbatim>\<open>None\<close> at
  the end. The dictionary \<^verbatim>\<open>results\<close> is the list of its entries in insertion
  order; its keys are all different.
\<close>

fun read_games ::
  "chesslib \<Rightarrow> 'e engine \<Rightarrow> nat \<Rightarrow> (string \<times> game_result) list \<Rightarrow> 'e \<Rightarrow> game list \<Rightarrow>
   (failure + (string \<times> game_result) list) \<times> 'e" where
  "read_games lib analyse game_count results eng pgn_file =
     (if game_count < 5 then
        (case pgn_file of
           [] \<Rightarrow> (Inr results, eng)
         | g # rest \<Rightarrow>
             (case analyze_game lib analyse eng g of
                (Inl e, eng') \<Rightarrow> (Inl e, eng')
              | (Inr game_res, eng') \<Rightarrow>
                  read_games lib analyse (game_count + 1)
                    (results @ [(''game_'' @ str_nat (game_count + 1), game_res)]) eng' rest))
      else (Inr results, eng))"

declare read_games.simps [simp del]

text \<open>
  \<^verbatim>\<open>analyze_pgn_file\<close>. The file is \<open>None\<close> when it cannot be opened; this and every
  other exception give the empty dictionary.
\<close>

definition analyze_pgn_file ::
  "chesslib \<Rightarrow> 'e engine \<Rightarrow> 'e \<Rightarrow> game list option \<Rightarrow>
   (failure + (string \<times> game_result) list) \<times> 'e" where
  "analyze_pgn_file lib analyse eng pgn_file =
     (case pgn_file of
        None \<Rightarrow> (Inr [], eng)
      | Some games \<Rightarrow>
          (case read_games lib analyse 0 [] eng games of
             (Inl (Raised x), eng') \<Rightarrow> (Inr [], eng')
           | (Inl Diverges, eng') \<Rightarrow> (Inl Diverges, eng')
           | (Inr results, eng') \<Rightarrow> (Inr results, eng')))"

section \<open>Example positions, moves, rules and engines\<close>

text \<open>\<^verbatim>\<open>chess.Piece(piece_type, color)\<close> and \<^verbatim>\<open>chess.Move(from_square, to_square)\<close>.\<close>

definition Piece :: "piece_type \<Rightarrow> bool \<Rightarrow> piece" where
  "Piece pt c = \<lparr>piece_type = pt, color = c\<rparr>"

definition Move :: "int \<Rightarrow> int \<Rightarrow> move" where
  "Move f t = \<lparr>from_square = f, to_square = t, promotion = None, drop_type = None\<rparr>"

text \<open>A position given by its pieces and the side to move, at the start of a game record.\<close>

definition position :: "(int \<times> piece) list \<Rightarrow> bool \<Rightarrow> board" where
  "position placement t =
     \<lparr>pieces = map_of placement, turn = t, castling_rights = [], ep_square = None,
      halfmove_clock = 0, fullmove_number = 1\<rparr>"

text \<open>
  What \<^verbatim>\<open>Board.push\<close> does with a move that is no capture, castling, promotion or pawn
  move: the piece changes square and the turn passes. It raises when the square the
  move starts from is empty.
\<close>

definition plain_push :: "board \<Rightarrow> move \<Rightarrow> exception + board" where
  "plain_push b m =
     (case piece_at b (from_square m) of
        None \<Rightarrow> Inl AssertionError
      | Some p \<Rightarrow>
          Inr (b\<lparr>pieces := (pieces b)(from_square m := None, to_square m := Some p),
                 turn := \<not> turn b,
                 ep_square := None,
                 halfmove_clock := halfmove_clock b + 1,
                 fullmove_number := (if turn b then fullmove_number b else fullmove_number b + 1)\<rparr>))"

text \<open>
  A stand-in for the legality test, enough for the examples: the move takes a piece of
  the side to move to another square that holds no piece of that side.
\<close>

definition plain_is_legal :: "board \<Rightarrow> move \<Rightarrow> bool" where
  "plain_is_legal b m =
     (case piece_at b (from_square m) of
        None \<Rightarrow> False
      | Some p \<Rightarrow>
          (if color p = turn b \<and> from_square m \<noteq> to_square m then
             (case piece_at b (to_square m) of None \<Rightarrow> True | Some q \<Rightarrow> color q \<noteq> turn b)
           else False))"

definition plain_lib :: chesslib where
  "plain_lib = \<lparr>push = plain_push, is_legal = plain_is_legal, is_game_over = (\<lambda>b. False)\<rparr>"

text \<open>
  An engine that gives the answers of a script in turn, whatever the position, and
  no principal variation once the script is used up. Its state is the rest of the
  script, so the state tells how many queries were made.
\<close>

definition scripted :: "(exception + move list option) list engine" where
  "scripted answers b = (case answers of [] \<Rightarrow> (Inr None, []) | a # rest \<Rightarrow> (a, rest))"

text \<open>White: Kg1, Ra1. Black: Kh8, Qa4, a7. White to move.\<close>

definition file_skewer_board :: board where
  "file_skewer_board = position
     [(0, Piece ROOK True), (6, Piece KING True),
      (24, Piece QUEEN False), (48, Piece PAWN False), (63, Piece KING False)] True"

text \<open>White: Kg1, Ba1. Black: Kg8, Qc3, Re5. White to move.\<close>

definition diagonal_skewer_board :: board where
  "diagonal_skewer_board = position
     [(0, Piece BISHOP True), (6, Piece KING True),
      (18, Piece QUEEN False), (36, Piece ROOK False), (62, Piece KING False)] True"

text \<open>White: Kg1, Rh1. Black: Kh8, Qa2, b2. White to move.\<close>

definition edge_board :: board where
  "edge_board = position
     [(6, Piece KING True), (7, Piece ROOK True),
      (8, Piece QUEEN False), (9, Piece PAWN False), (63, Piece KING False)] True"

text \<open>White: Ke1, e2, e3. Black: Ka8, Re4. White to move.\<close>

definition blocked_file_board :: board where
  "blocked_file_board = position
     [(4, Piece KING True), (12, Piece PAWN True), (20, Piece PAWN True),
      (28, Piece ROOK False), (56, Piece KING False)] True"

text \<open>White: Kg1, Qe5, Re2. Black: Kd8, Re8. White to move.\<close>

definition reply_skewer_board :: board where
  "reply_skewer_board = position
     [(6, Piece KING True), (12, Piece ROOK True), (36, Piece QUEEN True),
      (59, Piece KING False), (60, Piece ROOK False)] True"

text \<open>The same position as \<open>diagonal_skewer_board\<close>, reached later in a game.\<close>

definition later_diagonal_board :: board where
  "later_diagonal_board = diagonal_skewer_board\<lparr>halfmove_clock := 7, fullmove_number := 30\<rparr>"

text \<open>The position after Kg1-h1 on \<open>reply_skewer_board\<close>.\<close>

definition after_king_move :: board where
  "after_king_move =
     \<lparr>pieces = (map_of
         [(6, Piece KING True), (12, Piece ROOK True), (36, Piece QUEEN True),
          (59, Piece KING False), (60, Piece ROOK False)])(6 := None, 7 := Some (Piece KING True)),
      turn = False, castling_rights = [], ep_square = None,
      halfmove_clock = 1, fullmove_number = 1\<rparr>"

section \<open>Notions used in the statements and proofs\<close>

text \<open>
  The moves \<open>pre\<close> are legal one after the other from the board \<open>b\<close>, and \<open>m\<close> is illegal
  in the position they lead to: \<open>m\<close> is the first illegal move of \<open>pre @ m # rest\<close>.
\<close>

fun first_illegal :: "chesslib \<Rightarrow> board \<Rightarrow> move list \<Rightarrow> move \<Rightarrow> bool" where
  "first_illegal lib b [] m = (if is_legal lib b m then False else True)"
| "first_illegal lib b (p # ps) m =
     (if is_legal lib b p then
        (case push lib b p of Inl x \<Rightarrow> False | Inr b' \<Rightarrow> first_illegal lib b' ps m)
      else False)"

text \<open>
  The plies of a mainline analysed one after the other by \<^verbatim>\<open>analyze_position\<close>, each on
  the position before it, with the engine state carried from one ply to the next and
  the board advanced by \<^verbatim>\<open>push\<close>. For each ply it keeps the colour that moved and the
  result for the position; it fails where an analysis or a push raises.
\<close>

fun plies_analysed ::
  "chesslib \<Rightarrow> 'e engine \<Rightarrow> board \<Rightarrow> 'e \<Rightarrow> move list \<Rightarrow>
   (failure + (bool \<times> position_result) list) \<times> 'e" where
  "plies_analysed lib analyse b eng [] = (Inr [], eng)"
| "plies_analysed lib analyse b eng (m # ms) =
     (case analyze_position lib analyse eng b (Some m) of
        (Inl e, eng') \<Rightarrow> (Inl e, eng')
      | (Inr position_res, eng') \<Rightarrow>
          (case push lib b m of
             Inl x \<Rightarrow> (Inl (Raised x), eng')
           | Inr b' \<Rightarrow>
               (case plies_analysed lib analyse b' eng' ms of
                  (Inl e, eng'') \<Rightarrow> (Inl e, eng'')
                | (Inr rs, eng'') \<Rightarrow> (Inr ((turn b, position_res) # rs), eng''))))"

text \<open>
  The full-move number of ply \<open>i\<close> (counted from 0) of a game whose plies were made by
  the colours \<open>movers\<close>: the number \<open>first\<close> of the first ply, plus one for each of the
  plies \<open>1 .. i\<close> that White made, that is, for each earlier ply after which it was
  White's turn.
\<close>

definition full_move_number :: "int \<Rightarrow> bool list \<Rightarrow> nat \<Rightarrow> int" where
  "full_move_number first movers i =
     first + int (length (filter (\<lambda>white. white) (take i (tl movers))))"

text \<open>
  The records of one category of all plies, in the order of the plies, each tagged
  with the full-move number of its ply and the colour that moved.
\<close>

definition tagged_records ::
  "int \<Rightarrow> (bool \<times> position_result) list \<Rightarrow> (position_result \<Rightarrow> tactic_record list) \<Rightarrow>
   tagged list" where
  "tagged_records first rs category =
     concat (map (\<lambda>i. map (tag (full_move_number first (map fst rs) i) (fst (rs ! i)))
                        (category (snd (rs ! i))))
               [0..<length rs])"

text \<open>
  Two board objects show the same snapshot: the same side to move and the same piece,
  or none, on each of the 64 squares. They may differ in the clocks, the castling
  rights, the en passant square, and in being two objects.
\<close>

definition same_position :: "board \<Rightarrow> board \<Rightarrow> bool" where
  "same_position b b' \<longleftrightarrow>
     turn b = turn b' \<and> list_all (\<lambda>s. piece_at b s = piece_at b' s) SQUARES"


text \<open>An entry of \<^verbatim>\<open>pieces_in_line\<close> carries the value of its own piece type.\<close>

definition entry_ok :: "line_entry \<Rightarrow> bool" where
  "entry_ok e \<longleftrightarrow> entry_value e = piece_values (entry_piece_type e)"

text \<open>The number of steps a walk with a non-zero step can still take inside the board.\<close>

definition walk_measure :: "int \<Rightarrow> int \<Rightarrow> nat" where
  "walk_measure step current = (if 0 < step then nat (64 - current) else nat (current + 1))"

text \<open>A record is a skewer whose front piece is worth more than its back piece.\<close>

definition skewer_ok :: "tactic_record \<Rightarrow> bool" where
  "skewer_ok s \<longleftrightarrow>
     (case s of
        Pin _ _ _ _ _ \<Rightarrow> False
      | Skewer _ _ front _ back _ \<Rightarrow> piece_values back < piece_values front)"

section \<open>The pin mask of the king's own square\<close>

lemma king_not_attacked:
  "k \<notin> file_attacks k" "k \<notin> rank_attacks k" "k \<notin> diag_attacks k"
  by (simp_all add: file_attacks_def rank_attacks_def diag_attacks_def)

text \<open>
  \<^verbatim>\<open>detect_pins\<close> asks for the pin mask of the square of the king itself. That square
  is on none of the lines through the king, so the library answers with the whole
  board, and the test \<^verbatim>\<open>pin_mask & chess.BB_SQUARES[square]\<close> lets every square through.
\<close>

lemma pin_mask_king: "pin_mask b c (king b c) = Inr BB_ALL"
  by (simp add: pin_mask_def king_not_attacked split: option.splits)

lemma detect_pins_all: "detect_pins b = collect (pins_at b BB_ALL) SQUARES"
  by (simp add: detect_pins_def pin_mask_king)

section \<open>Loops that collect\<close>

lemma collect_all:
  assumes "\<forall>x\<in>set xs. \<exists>ys. body x = Inr ys \<and> (\<forall>y\<in>set ys. P y)"
  shows "\<exists>r. collect body xs = Inr r \<and> (\<forall>y\<in>set r. P y)"
  using assms
proof (induction xs)
  case Nil
  then show ?case by simp
next
  case (Cons x xs)
  from Cons.prems obtain ys where ys: "body x = Inr ys" "\<forall>y\<in>set ys. P y"
    by auto
  from Cons obtain r where r: "collect body xs = Inr r" "\<forall>y\<in>set r. P y"
    by auto
  from ys r show ?case by auto
qed

lemma collect_cong:
  "(\<And>x. x \<in> set xs \<Longrightarrow> f x = g x) \<Longrightarrow> collect f xs = collect g xs"
  by (induction xs) (auto split: sum.splits)

section \<open>The skewer walk ends, and what it collects\<close>

lemma walk_measure_less:
  assumes "step \<noteq> 0" "0 \<le> current + step" "current + step < 64"
  shows "walk_measure step (current + step) < walk_measure step current"
  using assms by (auto simp: walk_measure_def)

lemma skewer_walk_returns:
  assumes "file_diff + 8 * rank_diff \<noteq> 0" and "list_all entry_ok line"
  shows "\<exists>r. skewer_walk b c file_diff rank_diff current line = Some r \<and> list_all entry_ok r"
  using assms(2)
proof (induction "walk_measure (file_diff + 8 * rank_diff) current" arbitrary: current line
    rule: less_induct)
  case less
  let ?next = "current + file_diff + 8 * rank_diff"
  show ?case
  proof (cases "0 \<le> ?next \<and> ?next < 64")
    case False
    then show ?thesis
      using less.prems by (subst skewer_walk.simps) (simp add: Let_def)
  next
    case True
    then have smaller: "walk_measure (file_diff + 8 * rank_diff) ?next
        < walk_measure (file_diff + 8 * rank_diff) current"
      using walk_measure_less [OF assms(1), of current] by (simp add: add.assoc)
    show ?thesis
    proof (cases "piece_at b ?next")
      case None
      from less.hyps [OF smaller less.prems] None True show ?thesis
        by (subst skewer_walk.simps) (simp add: Let_def)
    next
      case (Some p)
      let ?line = "line @ [\<lparr>entry_square = ?next, entry_piece_type = piece_type p,
                           entry_value = piece_values (piece_type p)\<rparr>]"
      have ok: "list_all entry_ok ?line"
        using less.prems by (simp add: entry_ok_def)
      from less.hyps [OF smaller ok] Some True ok less.prems show ?thesis
        by (subst skewer_walk.simps) (simp add: Let_def)
    qed
  qed
qed

lemma directions_step: "d \<in> set (directions pt) \<Longrightarrow> fst d + 8 * snd d \<noteq> 0"
  by (auto simp: directions_def split: if_splits)

lemma skewers_in_direction_ok:
  assumes "d \<in> set (directions pt)"
  shows "\<exists>ts. skewers_in_direction b sq p d = Inr ts \<and> (\<forall>s\<in>set ts. skewer_ok s)"
proof -
  from skewer_walk_returns [OF directions_step [OF assms], of "[]" b "color p" sq]
  obtain r where r: "skewer_walk b (color p) (fst d) (snd d) sq [] = Some r" "list_all entry_ok r"
    by auto
  then show ?thesis
    by (auto simp: skewers_in_direction_def skewer_ok_def entry_ok_def split: list.splits)
qed

lemma find_skewers_from_piece_ok:
  "\<exists>ts. find_skewers_from_piece b sq p = Inr ts \<and> (\<forall>s\<in>set ts. skewer_ok s)"
  unfolding find_skewers_from_piece_def
  by (rule collect_all) (simp add: skewers_in_direction_ok)

lemma skewers_at_ok: "\<exists>ts. skewers_at b sq = Inr ts \<and> (\<forall>s\<in>set ts. skewer_ok s)"
  using find_skewers_from_piece_ok by (auto simp: skewers_at_def split: option.splits)

lemma detect_skewers_ok: "\<exists>r. detect_skewers b = Inr r \<and> (\<forall>s\<in>set r. skewer_ok s)"
  unfolding detect_skewers_def by (rule collect_all) (simp add: skewers_at_ok)

section \<open>The value order of a skewer\<close>

text \<open>
  C1, as the code has it. \<^verbatim>\<open>detect_skewers\<close> returns on every board, and every record
  it returns is a skewer whose front piece is worth strictly more than its back piece
  under \<^verbatim>\<open>piece_values\<close>: the test in \<^verbatim>\<open>find_skewers_from_piece\<close> is
  \<^verbatim>\<open>front_piece['value'] > back_piece['value']\<close>, the high-value piece in front.
\<close>

theorem skewer_front_outvalues_back:
  "\<exists>r. detect_skewers b = Inr r \<and>
     (\<forall>s\<in>set r. \<exists>ap asq front fsq back bsq.
        s = Skewer ap asq front fsq back bsq \<and> piece_values back < piece_values front)"
proof -
  obtain r where r: "detect_skewers b = Inr r" "\<forall>s\<in>set r. skewer_ok s"
    using detect_skewers_ok by blast
  have "\<exists>ap asq front fsq back bsq.
        s = Skewer ap asq front fsq back bsq \<and> piece_values back < piece_values front"
    if "s \<in> set r" for s
    using r(2) that by (cases s) (auto simp: skewer_ok_def)
  with r(1) show ?thesis by blast
qed

text \<open>
  The theorem at a position with a skewer: the bishop on a1 attacks the queen on c3 and
  the rook on e5 behind it.
\<close>

theorem skewer_front_outvalues_back_witness:
  "detect_skewers diagonal_skewer_board = Inr [Skewer BISHOP ''a1'' QUEEN ''c3'' ROOK ''e5''] \<and>
   piece_values ROOK < piece_values QUEEN"
proof -
  have run: "detect_skewers diagonal_skewer_board = Inr [Skewer BISHOP ''a1'' QUEEN ''c3'' ROOK ''e5'']"
    by code_simp
  from skewer_front_outvalues_back [of diagonal_skewer_board] run show ?thesis
    by simp
qed

text \<open>
  C1 as the specification words it (the back piece worth more than the front piece)
  fails: the rook on a1 attacks the queen on a4 with a pawn behind it on a7, and the
  record is returned although the back piece is worth less than the front piece.
\<close>

theorem skewer_back_not_above_front:
  "detect_skewers file_skewer_board = Inr [Skewer ROOK ''a1'' QUEEN ''a4'' PAWN ''a7''] \<and>
   \<not> piece_values (back_target (Skewer ROOK ''a1'' QUEEN ''a4'' PAWN ''a7''))
      > piece_values (front_target (Skewer ROOK ''a1'' QUEEN ''a4'' PAWN ''a7''))"
proof -
  have "detect_skewers file_skewer_board = Inr [Skewer ROOK ''a1'' QUEEN ''a4'' PAWN ''a7'']"
    by code_simp
  then show ?thesis by simp
qed

section \<open>Walks and the edge of the board\<close>

text \<open>
  C2 at a position where it fails. The walks test the square index against \<open>[0, 64)\<close>
  only, so a walk along a rank runs from the h-file on to the a-file of the next rank.
  From the rook on h1, the walk in direction \<open>(1, 0)\<close> visits a2 and b2, which are on
  another rank, and \<^verbatim>\<open>detect_skewers\<close> reports the rook as skewering the queen on a2
  and the pawn on b2. The walk of \<^verbatim>\<open>find_pinning_piece\<close> from h1 away from the king
  on g1 crosses the edge in the same way and finds the queen on a2.
\<close>

theorem walk_crosses_board_edge:
  "skewer_walk edge_board True 1 0 7 [] =
     Some [\<lparr>entry_square = 8, entry_piece_type = QUEEN, entry_value = 9\<rparr>,
           \<lparr>entry_square = 9, entry_piece_type = PAWN, entry_value = 1\<rparr>] \<and>
   square_rank 8 \<noteq> square_rank 7 \<and>
   detect_skewers edge_board = Inr [Skewer ROOK ''h1'' QUEEN ''a2'' PAWN ''b2''] \<and>
   find_pinning_piece edge_board 7 (Some 6) =
     Inr (Some \<lparr>pinner_type = QUEEN, pinner_square = ''a2''\<rparr>)"
proof -
  have "skewer_walk edge_board True 1 0 7 [] =
     Some [\<lparr>entry_square = 8, entry_piece_type = QUEEN, entry_value = 9\<rparr>,
           \<lparr>entry_square = 9, entry_piece_type = PAWN, entry_value = 1\<rparr>]"
    by code_simp
  moreover have "square_rank 8 \<noteq> square_rank 7"
    by (simp add: square_rank_def)
  moreover have "detect_skewers edge_board = Inr [Skewer ROOK ''h1'' QUEEN ''a2'' PAWN ''b2'']"
    by code_simp
  moreover have "find_pinning_piece edge_board 7 (Some 6) =
     Inr (Some \<lparr>pinner_type = QUEEN, pinner_square = ''a2''\<rparr>)"
    by code_simp
  ultimately show ?thesis by blast
qed

section \<open>Whose tactics a move evaluation returns\<close>

text \<open>
  C3 at a position where it fails. White plays Kg1-h1. On the position after the move
  it is Black's turn, and \<^verbatim>\<open>detect_skewers\<close> scans the sliding pieces of the side to
  move: the record returned has the black rook on e8 as its attacking piece, against
  the white queen on e5 and the white rook on e2.
\<close>

theorem move_evaluation_returns_opponent_skewer:
  "turn reply_skewer_board = True \<and>
   move_creates_pin_or_skewer plain_lib reply_skewer_board (Move 6 7) =
     Inr [Skewer ROOK ''e8'' QUEEN ''e5'' ROOK ''e2''] \<and>
   square_name 60 = ''e8'' \<and>
   map_sum id (\<lambda>after. piece_at after 60) (push plain_lib reply_skewer_board (Move 6 7)) =
     Inr (Some (Piece ROOK False))"
proof -
  have "turn reply_skewer_board = True"
    by code_simp
  moreover have "move_creates_pin_or_skewer plain_lib reply_skewer_board (Move 6 7) =
     Inr [Skewer ROOK ''e8'' QUEEN ''e5'' ROOK ''e2'']"
    by code_simp
  moreover have "square_name 60 = ''e8''"
    by code_simp
  moreover have "map_sum id (\<lambda>after. piece_at after 60) (push plain_lib reply_skewer_board (Move 6 7)) =
     Inr (Some (Piece ROOK False))"
    by code_simp
  ultimately show ?thesis by blast
qed

section \<open>Pins that are none\<close>

text \<open>
  C4 at a position where it fails. The white pawns on e2 and e3 stand between the king
  on e1 and the black rook on e4. The library itself says that e3 is not pinned (its
  pin mask is the whole board), and taking the pawn on e3 away leaves the pawn on e2
  between rook and king; yet \<^verbatim>\<open>detect_pins\<close> reports the pawn on e3 as pinned by the
  rook, because the mask it asks for is that of the king's square and
  \<^verbatim>\<open>find_pinning_piece\<close> looks only at the far side of the piece.
\<close>

theorem blocked_piece_reported_as_pinned:
  "detect_pins blocked_file_board = Inr [Pin PAWN ''e3'' ROOK ''e4'' ''king''] \<and>
   king blocked_file_board True = Some 4 \<and>
   piece_at blocked_file_board 12 = Some (Piece PAWN True) \<and>
   pin_mask blocked_file_board True (Some 20) = Inr BB_ALL"
proof -
  have "detect_pins blocked_file_board = Inr [Pin PAWN ''e3'' ROOK ''e4'' ''king'']"
    by code_simp
  moreover have "king blocked_file_board True = Some 4"
    by code_simp
  moreover have "piece_at blocked_file_board 12 = Some (Piece PAWN True)"
    by code_simp
  moreover have "pin_mask blocked_file_board True (Some 20) = Inr BB_ALL"
    by code_simp
  ultimately show ?thesis by blast
qed

section \<open>A missing played move\<close>

text \<open>
  C10. With \<^verbatim>\<open>None\<close> for the played move, \<^verbatim>\<open>analyze_position\<close> returns the result with
  three empty lists. It does so for every rules library and every engine, and the
  engine is left in the state it was in: no move was applied and no query was made.
\<close>

theorem analyze_position_without_move:
  "analyze_position lib analyse eng b None =
     (Inr \<lparr>executed = [], missed = [], allowed = []\<rparr>, eng)"
  by (simp add: analyze_position_def)

section \<open>The first five games\<close>

lemma read_games_Nil: "read_games lib analyse n results eng [] = (Inr results, eng)"
  by (subst read_games.simps) simp

lemma read_games_Cons:
  "read_games lib analyse n results eng (g # rest) =
     (if n < 5 then
        (case analyze_game lib analyse eng g of
           (Inl e, eng') \<Rightarrow> (Inl e, eng')
         | (Inr game_res, eng') \<Rightarrow>
             read_games lib analyse (n + 1)
               (results @ [(''game_'' @ str_nat (n + 1), game_res)]) eng' rest)
      else (Inr results, eng))"
  by (subst read_games.simps) simp

lemma read_games_take:
  "read_games lib analyse n results eng (take (5 - n) gs) = read_games lib analyse n results eng gs"
proof (induction gs arbitrary: n results eng)
  case Nil
  show ?case by simp
next
  case (Cons g gs)
  show ?case
  proof (cases "n < 5")
    case True
    then have "5 - n = Suc (5 - (n + 1))"
      by simp
    then have "take (5 - n) (g # gs) = g # take (5 - (n + 1)) gs"
      by (simp only: take_Suc_Cons)
    moreover have "read_games lib analyse (Suc n) res e (take (4 - n) gs) =
        read_games lib analyse (Suc n) res e gs" for res e
      using Cons.IH [of "Suc n" res e] by simp
    ultimately show ?thesis
      using True by (simp add: read_games_Cons split: prod.splits sum.splits)
  next
    case False
    then show ?thesis by (simp add: read_games_Cons read_games_Nil)
  qed
qed

lemma read_games_length:
  "read_games lib analyse n results eng gs = (Inr r, eng') \<Longrightarrow> length r \<le> length results + (5 - n)"
proof (induction gs arbitrary: n results eng)
  case Nil
  then show ?case by (simp add: read_games_Nil)
next
  case (Cons g gs)
  show ?case
  proof (cases "n < 5")
    case True
    obtain x e1 where a: "analyze_game lib analyse eng g = (x, e1)"
      by (cases "analyze_game lib analyse eng g")
    show ?thesis
    proof (cases x)
      case (Inl e)
      with Cons.prems True a show ?thesis by (simp add: read_games_Cons)
    next
      case (Inr game_res)
      with Cons.prems True a
      have "read_games lib analyse (n + 1)
              (results @ [(''game_'' @ str_nat (n + 1), game_res)]) e1 gs = (Inr r, eng')"
        by (simp add: read_games_Cons)
      from Cons.IH [OF this] True show ?thesis by simp
    qed
  next
    case False
    with Cons.prems show ?thesis by (simp add: read_games_Cons)
  qed
qed

text \<open>
  C9. \<^verbatim>\<open>analyze_pgn_file\<close> gives the same dictionary, and leaves the engine in the same
  state, as on the file cut after its fifth game; the dictionary has at most five
  entries. Games after the fifth are neither read nor analysed.
\<close>

theorem analyze_pgn_file_first_five:
  "analyze_pgn_file lib analyse eng (Some games) =
     analyze_pgn_file lib analyse eng (Some (take 5 games)) \<and>
   length (case fst (analyze_pgn_file lib analyse eng (Some games)) of
             Inl e \<Rightarrow> [] | Inr results \<Rightarrow> results) \<le> 5"
proof -
  have same: "read_games lib analyse 0 [] eng (take 5 games) = read_games lib analyse 0 [] eng games"
    using read_games_take [of lib analyse 0 "[]" eng games] by simp
  obtain x e1 where run: "read_games lib analyse 0 [] eng games = (x, e1)"
    by (cases "read_games lib analyse 0 [] eng games")
  have "length (case fst (analyze_pgn_file lib analyse eng (Some games)) of
                  Inl e \<Rightarrow> [] | Inr results \<Rightarrow> results) \<le> 5"
  proof (cases x)
    case (Inl e)
    with run show ?thesis by (cases e) (simp_all add: analyze_pgn_file_def)
  next
    case (Inr r)
    with run read_games_length [of lib analyse 0 "[]" eng games r e1] show ?thesis
      by (simp add: analyze_pgn_file_def)
  qed
  with same show ?thesis by (simp add: analyze_pgn_file_def)
qed

section \<open>The pin search ends\<close>

lemma in_SQUARES: "s \<in> set SQUARES \<longleftrightarrow> 0 \<le> s \<and> s < 64"
  by (auto simp: SQUARES_def)

lemma pin_search_returns:
  assumes "file_diff + 8 * rank_diff \<noteq> 0"
  shows "\<exists>r. pin_search b file_diff rank_diff current = Some r"
proof (induction "walk_measure (- file_diff - 8 * rank_diff) current" arbitrary: current
    rule: less_induct)
  case less
  let ?next = "current - file_diff - 8 * rank_diff"
  show ?case
  proof (cases "0 \<le> ?next \<and> ?next < 64")
    case False
    then show ?thesis
      by (subst pin_search.simps) (simp add: Let_def)
  next
    case True
    have "walk_measure (- file_diff - 8 * rank_diff) (current + (- file_diff - 8 * rank_diff))
        < walk_measure (- file_diff - 8 * rank_diff) current"
      using assms True by (intro walk_measure_less) simp_all
    then have smaller: "walk_measure (- file_diff - 8 * rank_diff) ?next
        < walk_measure (- file_diff - 8 * rank_diff) current"
      by (simp add: algebra_simps)
    show ?thesis
    proof (cases "piece_at b ?next")
      case None
      from less.hyps [OF smaller] None True show ?thesis
        by (subst pin_search.simps) (simp add: Let_def)
    next
      case (Some p)
      with True show ?thesis
        by (subst pin_search.simps) (simp add: Let_def)
    qed
  qed
qed

text \<open>With a zero step the search stays on the square it starts from, which holds a piece.\<close>

lemma pin_search_on_piece:
  assumes "0 \<le> current" "current < 64" "piece_at b current = Some p"
  shows "\<exists>r. pin_search b 0 0 current = Some r"
  using assms by (subst pin_search.simps) (simp add: Let_def)

lemma unit_step:
  fixes x :: int
  shows "(if x \<noteq> 0 then x div \<bar>x\<bar> else x) \<in> {-1, 0, 1}"
proof (cases "x < 0")
  case True
  then have "x div \<bar>x\<bar> = - 1"
    by (simp add: zdiv_zminus2_eq_if)
  with True show ?thesis by simp
next
  case False
  then show ?thesis by simp
qed

lemma find_pinning_piece_returns:
  assumes "0 \<le> s" "s < 64" "piece_at b s = Some p"
  shows "\<exists>r. find_pinning_piece b s (Some k) = Inr r"
proof -
  define fd0 where "fd0 = square_file k - square_file s"
  define rd0 where "rd0 = square_rank k - square_rank s"
  define fd where "fd = (if fd0 \<noteq> 0 then fd0 div \<bar>fd0\<bar> else fd0)"
  define rd where "rd = (if rd0 \<noteq> 0 then rd0 div \<bar>rd0\<bar> else rd0)"
  have "fd \<in> {-1, 0, 1}" "rd \<in> {-1, 0, 1}"
    unfolding fd_def rd_def by (rule unit_step)+
  then have zero: "fd = 0 \<and> rd = 0" if "fd + 8 * rd = 0"
    using that by auto
  have "\<exists>r. pin_search b fd rd s = Some r"
  proof (cases "fd + 8 * rd = 0")
    case True
    with zero pin_search_on_piece [OF assms] show ?thesis by simp
  next
    case False
    then show ?thesis by (rule pin_search_returns)
  qed
  then show ?thesis
    by (auto simp: find_pinning_piece_def Let_def fd_def rd_def fd0_def rd0_def)
qed

lemma pins_at_returns:
  assumes "king b (turn b) = Some k" "s \<in> set SQUARES"
  shows "\<exists>r. pins_at b bb s = Inr r"
proof (cases "piece_at b s")
  case None
  then show ?thesis by (simp add: pins_at_def)
next
  case (Some p)
  with assms(2) obtain r where "find_pinning_piece b s (Some k) = Inr r"
    using find_pinning_piece_returns [of s b p k] by (auto simp: in_SQUARES)
  with Some assms(1) show ?thesis
    by (cases r) (simp_all add: pins_at_def)
qed

text \<open>With a king of the side to move on the board, \<^verbatim>\<open>detect_pins\<close> returns.\<close>

lemma detect_pins_returns:
  assumes "king b (turn b) = Some k"
  shows "\<exists>r. detect_pins b = Inr r"
proof -
  have "\<exists>r. collect (pins_at b BB_ALL) SQUARES = Inr r \<and> (\<forall>y\<in>set r. True)"
    using pins_at_returns [OF assms] by (intro collect_all) simp
  then show ?thesis by (simp add: detect_pins_all)
qed

lemma move_creates_pin_or_skewer_returns:
  assumes "push lib b m = Inr b'" "king b' (turn b') = Some k"
  shows "\<exists>ts. move_creates_pin_or_skewer lib b m = Inr ts"
proof -
  from detect_pins_returns [OF assms(2)] obtain pins where "detect_pins b' = Inr pins" ..
  moreover from detect_skewers_ok obtain skewers where "detect_skewers b' = Inr skewers"
    by blast
  ultimately show ?thesis
    using assms(1) by (simp add: move_creates_pin_or_skewer_def)
qed

section \<open>The detectors are functions of the position\<close>

lemma same_position_piece_at:
  "same_position b b' \<Longrightarrow> 0 \<le> s \<Longrightarrow> s < 64 \<Longrightarrow> piece_at b s = piece_at b' s"
  by (simp add: same_position_def list_all_iff in_SQUARES)

lemma same_position_sym: "same_position b b' \<Longrightarrow> same_position b' b"
  by (simp add: same_position_def list_all_iff)

lemma same_position_king:
  assumes "same_position b b'"
  shows "king b c = king b' c"
proof -
  have "filter (\<lambda>s. piece_at b s = Some \<lparr>piece_type = KING, color = c\<rparr>) (rev SQUARES) =
        filter (\<lambda>s. piece_at b' s = Some \<lparr>piece_type = KING, color = c\<rparr>) (rev SQUARES)"
    using assms by (intro filter_cong) (auto simp: same_position_def list_all_iff)
  then show ?thesis by (simp add: king_def)
qed

text \<open>
  A search that returns on one board returns the same on a board with the same
  position; the proof follows the unfolding of the loop.
\<close>

lemma pin_search_transfer:
  assumes "pin_search b file_diff rank_diff current = Some y"
  shows "\<forall>b'. same_position b b' \<longrightarrow> pin_search b' file_diff rank_diff current = Some y"
proof (rule pin_search.raw_induct
    [where P = "\<lambda>b fd rd cur y. \<forall>b'. same_position b b' \<longrightarrow> pin_search b' fd rd cur = Some y",
     OF _ assms], goal_cases)
  case (1 search b file_diff rank_diff current y)
  let ?next = "current - file_diff - 8 * rank_diff"
  note IH = 1(1) and body = 1(2)
  show ?case
  proof (intro allI impI)
    fix b'
    assume same: "same_position b b'"
    show "pin_search b' file_diff rank_diff current = Some y"
    proof (cases "0 \<le> ?next \<and> ?next < 64")
      case False
      with body show ?thesis
        by (subst pin_search.simps) (simp add: Let_def)
    next
      case True
      then have here: "piece_at b' ?next = piece_at b ?next"
        using same_position_piece_at [OF same, of ?next] by simp
      have turn: "turn b' = turn b"
        using same by (simp add: same_position_def)
      show ?thesis
      proof (cases "piece_at b ?next")
        case None
        with body True have "search b file_diff rank_diff ?next = Some y"
          by (simp add: Let_def)
        then have "pin_search b' file_diff rank_diff ?next = Some y"
          using IH same by blast
        with None True here show ?thesis
          by (subst pin_search.simps) (simp add: Let_def)
      next
        case (Some p)
        with body True here turn show ?thesis
          by (subst pin_search.simps) (simp add: Let_def)
      qed
    qed
  qed
qed

lemma pin_search_same:
  assumes "same_position b b'"
  shows "pin_search b file_diff rank_diff current = pin_search b' file_diff rank_diff current"
proof (cases "pin_search b file_diff rank_diff current")
  case (Some y)
  with pin_search_transfer [OF Some] assms show ?thesis by simp
next
  case None
  show ?thesis
  proof (cases "pin_search b' file_diff rank_diff current")
    case None': None
    with None show ?thesis by simp
  next
    case (Some y)
    from pin_search_transfer [OF Some] same_position_sym [OF assms] None show ?thesis by simp
  qed
qed

lemma skewer_walk_transfer:
  assumes "skewer_walk b c file_diff rank_diff current line = Some y"
  shows "\<forall>b'. same_position b b' \<longrightarrow> skewer_walk b' c file_diff rank_diff current line = Some y"
proof (rule skewer_walk.raw_induct
    [where P = "\<lambda>b c fd rd cur line y.
                  \<forall>b'. same_position b b' \<longrightarrow> skewer_walk b' c fd rd cur line = Some y",
     OF _ assms], goal_cases)
  case (1 walk b c file_diff rank_diff current line y)
  let ?next = "current + file_diff + 8 * rank_diff"
  note IH = 1(1) and body = 1(2)
  show ?case
  proof (intro allI impI)
    fix b'
    assume same: "same_position b b'"
    show "skewer_walk b' c file_diff rank_diff current line = Some y"
    proof (cases "0 \<le> ?next \<and> ?next < 64")
      case False
      with body show ?thesis
        by (subst skewer_walk.simps) (simp add: Let_def)
    next
      case inside: True
      then have here: "piece_at b' ?next = piece_at b ?next"
        using same_position_piece_at [OF same, of ?next] by simp
      show ?thesis
      proof (cases "piece_at b ?next")
        case None
        with body inside have "walk b c file_diff rank_diff ?next line = Some y"
          by (simp add: Let_def)
        then have "skewer_walk b' c file_diff rank_diff ?next line = Some y"
          using IH same by blast
        with None inside here show ?thesis
          by (subst skewer_walk.simps) (simp add: Let_def)
      next
        case (Some p)
        let ?line = "line @ [\<lparr>entry_square = ?next, entry_piece_type = piece_type p,
                             entry_value = piece_values (piece_type p)\<rparr>]"
        show ?thesis
        proof (cases "color p \<noteq> c \<and> length ?line \<noteq> 2")
          case True
          with body Some inside have "walk b c file_diff rank_diff ?next ?line = Some y"
            by (simp add: Let_def)
          then have "skewer_walk b' c file_diff rank_diff ?next ?line = Some y"
            using IH same by blast
          with Some inside here True show ?thesis
            by (subst skewer_walk.simps) (simp add: Let_def)
        next
          case False
          with body Some inside here show ?thesis
            by (subst skewer_walk.simps) (auto simp add: Let_def)
        qed
      qed
    qed
  qed
qed

lemma skewer_walk_same:
  assumes "same_position b b'"
  shows "skewer_walk b c file_diff rank_diff current line =
         skewer_walk b' c file_diff rank_diff current line"
proof (cases "skewer_walk b c file_diff rank_diff current line")
  case (Some y)
  with skewer_walk_transfer [OF Some] assms show ?thesis by simp
next
  case None
  show ?thesis
  proof (cases "skewer_walk b' c file_diff rank_diff current line")
    case None': None
    with None show ?thesis by simp
  next
    case (Some y)
    from skewer_walk_transfer [OF Some] same_position_sym [OF assms] None show ?thesis by simp
  qed
qed

lemma find_pinning_piece_same:
  "same_position b b' \<Longrightarrow> find_pinning_piece b s k = find_pinning_piece b' s k"
  by (simp add: find_pinning_piece_def pin_search_same [of b b'] cong: option.case_cong)

lemma pins_at_same:
  assumes "same_position b b'" and "s \<in> set SQUARES"
  shows "pins_at b bb s = pins_at b' bb s"
proof -
  have "piece_at b s = piece_at b' s"
    using assms by (simp add: same_position_def list_all_iff)
  moreover have "turn b = turn b'"
    using assms by (simp add: same_position_def)
  ultimately show ?thesis
    by (simp add: pins_at_def find_pinning_piece_same [OF assms(1)] same_position_king [OF assms(1)]
        cong: option.case_cong if_cong)
qed

lemma skewers_at_same:
  assumes "same_position b b'" and "s \<in> set SQUARES"
  shows "skewers_at b s = skewers_at b' s"
proof -
  have "piece_at b s = piece_at b' s"
    using assms by (simp add: same_position_def list_all_iff)
  moreover have "turn b = turn b'"
    using assms by (simp add: same_position_def)
  moreover have "skewers_in_direction b s p d = skewers_in_direction b' s p d" for p d
    by (simp add: skewers_in_direction_def skewer_walk_same [OF assms(1)])
  then have "find_skewers_from_piece b s p = find_skewers_from_piece b' s p" for p
    by (simp add: find_skewers_from_piece_def cong: collect_cong)
  ultimately show ?thesis
    by (simp add: skewers_at_def cong: option.case_cong if_cong)
qed

text \<open>
  C8. The output of \<^verbatim>\<open>detect_pins\<close> and of \<^verbatim>\<open>detect_skewers\<close>, as a list with its order
  (or the exception raised), is determined by the piece placement and the side to
  move. The detectors only read the board, so a second run on the same snapshot, or a
  run on any other board object showing the same position, gives the identical list:
  the squares are scanned in the fixed order of \<^verbatim>\<open>chess.SQUARES\<close> and the directions in
  the fixed order of their list.
\<close>

theorem detectors_depend_on_position_only:
  assumes "same_position b b'"
  shows "detect_pins b = detect_pins b' \<and> detect_skewers b = detect_skewers b'"
proof
  show "detect_pins b = detect_pins b'"
    unfolding detect_pins_all by (rule collect_cong) (rule pins_at_same [OF assms])
  show "detect_skewers b = detect_skewers b'"
    unfolding detect_skewers_def by (rule collect_cong) (rule skewers_at_same [OF assms])
qed

text \<open>The theorem on two boards with the same position and different clocks.\<close>

theorem detectors_depend_on_position_only_witness:
  "same_position diagonal_skewer_board later_diagonal_board \<and>
   halfmove_clock later_diagonal_board = 7 \<and> halfmove_clock diagonal_skewer_board = 0 \<and>
   detect_pins later_diagonal_board = Inr [] \<and>
   detect_skewers later_diagonal_board = Inr [Skewer BISHOP ''a1'' QUEEN ''c3'' ROOK ''e5'']"
proof -
  have same: "same_position diagonal_skewer_board later_diagonal_board"
    by code_simp
  have clocks: "halfmove_clock later_diagonal_board = 7" "halfmove_clock diagonal_skewer_board = 0"
    by (simp_all add: later_diagonal_board_def diagonal_skewer_board_def position_def)
  have pins: "detect_pins diagonal_skewer_board = Inr []"
    by code_simp
  have skewers: "detect_skewers diagonal_skewer_board =
      Inr [Skewer BISHOP ''a1'' QUEEN ''c3'' ROOK ''e5'']"
    by code_simp
  from detectors_depend_on_position_only [OF same] same clocks pins skewers
  show ?thesis by simp
qed

section \<open>The evaluation of a move works on a copy\<close>

text \<open>
  C7. In a store of board objects, \<^verbatim>\<open>move_creates_pin_or_skewer\<close> on the board at
  address \<open>a\<close> leaves every object that was in the store as it was, the board at \<open>a\<close>
  among them: its piece on each square \<open>sq\<close>, its side to move and its king squares
  are what they were before the call. The move is pushed on a copy at a new address,
  and the result is that of the function on the value of the board.
\<close>

theorem move_evaluation_leaves_input_board:
  assumes "a < length st"
  shows "take (length st) (snd (move_creates_pin_or_skewer_store lib st a m)) = st \<and>
         snd (move_creates_pin_or_skewer_store lib st a m) ! a = st ! a \<and>
         piece_at (snd (move_creates_pin_or_skewer_store lib st a m) ! a) sq = piece_at (st ! a) sq \<and>
         turn (snd (move_creates_pin_or_skewer_store lib st a m) ! a) = turn (st ! a) \<and>
         king (snd (move_creates_pin_or_skewer_store lib st a m) ! a) c = king (st ! a) c \<and>
         fst (move_creates_pin_or_skewer_store lib st a m) = move_creates_pin_or_skewer lib (st ! a) m"
proof -
  have "take (length st) (snd (move_creates_pin_or_skewer_store lib st a m)) = st"
    by (simp add: move_creates_pin_or_skewer_store_def copy_board_def push_at_def
        split: sum.splits)
  moreover have "snd (move_creates_pin_or_skewer_store lib st a m) ! a = st ! a"
    using assms
    by (simp add: move_creates_pin_or_skewer_store_def copy_board_def push_at_def nth_append
        split: sum.splits)
  moreover have "fst (move_creates_pin_or_skewer_store lib st a m) =
      move_creates_pin_or_skewer lib (st ! a) m"
    using assms
    by (simp add: move_creates_pin_or_skewer_store_def move_creates_pin_or_skewer_def
        copy_board_def push_at_def nth_append split: sum.splits)
  ultimately show ?thesis by simp
qed

lemma plain_push_king_move: "push plain_lib reply_skewer_board (Move 6 7) = Inr after_king_move"
  by (simp add: plain_lib_def plain_push_def reply_skewer_board_def position_def Move_def
      piece_at_def after_king_move_def Piece_def)

text \<open>
  The theorem on a store with one board: after the call the board at address 0 is the
  one before Kg1-h1, and the position after the move is in the new object at address 1.
\<close>

theorem move_evaluation_leaves_input_board_witness:
  "(0::nat) < length [reply_skewer_board] \<and>
   snd (move_creates_pin_or_skewer_store plain_lib [reply_skewer_board] 0 (Move 6 7)) ! 0 =
     reply_skewer_board \<and>
   snd (move_creates_pin_or_skewer_store plain_lib [reply_skewer_board] 0 (Move 6 7)) ! 1 =
     after_king_move \<and>
   fst (move_creates_pin_or_skewer_store plain_lib [reply_skewer_board] 0 (Move 6 7)) =
     Inr [Skewer ROOK ''e8'' QUEEN ''e5'' ROOK ''e2'']"
proof -
  have run: "move_creates_pin_or_skewer plain_lib reply_skewer_board (Move 6 7) =
     Inr [Skewer ROOK ''e8'' QUEEN ''e5'' ROOK ''e2'']"
    by code_simp
  have pins: "detect_pins after_king_move = Inr []" and
    skewers: "detect_skewers after_king_move = Inr [Skewer ROOK ''e8'' QUEEN ''e5'' ROOK ''e2'']"
    by code_simp+
  have copy: "snd (move_creates_pin_or_skewer_store plain_lib [reply_skewer_board] 0 (Move 6 7)) ! 1 =
     after_king_move"
    using plain_push_king_move
    by (simp add: move_creates_pin_or_skewer_store_def copy_board_def push_at_def pins skewers)
  from move_evaluation_leaves_input_board [of 0 "[reply_skewer_board]" plain_lib "Move 6 7"] run copy
  show ?thesis by simp
qed

section \<open>An engine without a recommendation\<close>

lemma extend_if_same: "extend_if ts = ts"
  by (simp add: extend_if_def)

text \<open>A raising engine gives no recommendation, as does one without a principal variation.\<close>

lemma get_best_move_exception:
  "analyse eng b = (Inl x, eng') \<Longrightarrow> get_best_move analyse eng b = (None, eng')"
  by (simp add: get_best_move_def)

text \<open>
  C6. Let the played move be a move that can be pushed and leaves a king of the side to
  move on the board. Then its tactics \<open>ts\<close> are computed, and
  \<^item> when the query on the position before the move gives no recommendation,
    \<^verbatim>\<open>analyze_position\<close> returns with \<open>executed = ts\<close> and \<open>missed = []\<close>, whatever the
    block for \<open>allowed\<close> yields;
  \<^item> when the query on the position after the move gives no recommendation,
    \<^verbatim>\<open>analyze_position\<close> returns with \<open>executed = ts\<close> and \<open>allowed = []\<close>, whatever the
    block for \<open>missed\<close> yields.
  The missing recommendation is no error: the call returns normally as long as the
  evaluation of the other recommended move does.
\<close>

theorem missing_recommendation_empties_only_its_category:
  assumes "move_bool player_move"
    and "push lib b player_move = Inr board_after_move"
    and "king board_after_move (turn board_after_move) = Some k"
  shows "\<exists>ts. move_creates_pin_or_skewer lib b player_move = Inr ts \<and>
         (get_best_move analyse eng b = (None, eng1) \<and>
          allowed_tactics lib analyse eng1 board_after_move = (Inr al, eng2) \<longrightarrow>
          analyze_position lib analyse eng b (Some player_move) =
            (Inr \<lparr>executed = ts, missed = [], allowed = al\<rparr>, eng2)) \<and>
         (get_best_move analyse eng b = (best_move, eng1) \<and>
          missed_tactics lib b player_move best_move = Inr ms \<and>
          \<not> is_game_over lib board_after_move \<and>
          get_best_move analyse eng1 board_after_move = (None, eng2) \<longrightarrow>
          analyze_position lib analyse eng b (Some player_move) =
            (Inr \<lparr>executed = ts, missed = ms, allowed = []\<rparr>, eng2))"
proof -
  from move_creates_pin_or_skewer_returns [OF assms(2,3)]
  obtain ts where ts: "move_creates_pin_or_skewer lib b player_move = Inr ts" ..
  with assms(1,2) show ?thesis
    by (simp add: analyze_position_def missed_tactics_def allowed_tactics_def extend_if_same)
qed

text \<open>
  The theorem at Kg1-h1 on \<open>reply_skewer_board\<close>, with an engine that raises on the
  first query and has no principal variation on the second.
\<close>

theorem missing_recommendation_empties_only_its_category_witness:
  "move_bool (Move 6 7) \<and>
   push plain_lib reply_skewer_board (Move 6 7) = Inr after_king_move \<and>
   king after_king_move (turn after_king_move) = Some 59 \<and>
   get_best_move scripted [Inl EngineError, Inr None] reply_skewer_board = (None, [Inr None]) \<and>
   allowed_tactics plain_lib scripted [Inr None] after_king_move = (Inr [], []) \<and>
   missed_tactics plain_lib reply_skewer_board (Move 6 7) None = Inr [] \<and>
   \<not> is_game_over plain_lib after_king_move \<and>
   get_best_move scripted [Inr None] after_king_move = (None, []) \<and>
   analyze_position plain_lib scripted [Inl EngineError, Inr None] reply_skewer_board (Some (Move 6 7)) =
     (Inr \<lparr>executed = [Skewer ROOK ''e8'' QUEEN ''e5'' ROOK ''e2''], missed = [], allowed = []\<rparr>, [])"
proof -
  have 1: "move_bool (Move 6 7)"
    by code_simp
  have 2: "move_creates_pin_or_skewer plain_lib reply_skewer_board (Move 6 7) =
     Inr [Skewer ROOK ''e8'' QUEEN ''e5'' ROOK ''e2'']"
    by code_simp
  note 3 = plain_push_king_move
  have 4: "get_best_move scripted [Inl EngineError, Inr None] reply_skewer_board = (None, [Inr None])"
    by (simp add: get_best_move_def scripted_def)
  have 5: "allowed_tactics plain_lib scripted [Inr None] after_king_move = (Inr [], [])"
    by (simp add: allowed_tactics_def get_best_move_def scripted_def plain_lib_def)
  have 6: "missed_tactics plain_lib reply_skewer_board (Move 6 7) None = Inr []"
    by (simp add: missed_tactics_def)
  have 7: "\<not> is_game_over plain_lib after_king_move"
    by (simp add: plain_lib_def)
  have 8: "get_best_move scripted [Inr None] after_king_move = (None, [])"
    by (simp add: get_best_move_def scripted_def)
  have 9: "king after_king_move (turn after_king_move) = Some 59"
    by code_simp
  from missing_recommendation_empties_only_its_category
    [OF 1 3 9, of scripted "[Inl EngineError, Inr None]" "[Inr None]" "[]" "[]" None "[]"]
    2 4 5 6 7 8
  show ?thesis using 1 3 9 by simp
qed

section \<open>A game with an illegal move\<close>

text \<open>The moves after the first illegal one play no part in the result.\<close>

lemma analyze_moves_stop:
  "first_illegal lib b pre m \<Longrightarrow>
   analyze_moves lib analyse b n res eng (pre @ m # rest) = analyze_moves lib analyse b n res eng pre"
proof (induction pre arbitrary: b n res eng)
  case Nil
  then show ?case by (simp split: if_splits)
next
  case (Cons p ps)
  from Cons.prems have legal: "is_legal lib b p"
    by (simp split: if_splits)
  from Cons.prems legal obtain b' where pushed: "push lib b p = Inr b'" and
      later: "first_illegal lib b' ps m"
    by (auto split: sum.splits)
  show ?case
    using legal pushed Cons.IH [OF later]
    by (simp split: prod.splits sum.splits)
qed

lemma tagged_records_Nil: "tagged_records n [] category = []"
  by (simp add: tagged_records_def)

lemma tagged_records_Cons:
  "tagged_records n ((t, pr) # rs) category =
     map (tag n t) (category pr) @
     tagged_records (if rs \<noteq> [] \<and> fst (hd rs) then n + 1 else n) rs category"
proof (cases rs)
  case Nil
  then show ?thesis by (simp add: tagged_records_def full_move_number_def)
next
  case (Cons r rs')
  have upt: "[0..<length ((t, pr) # rs)] = 0 # map Suc [0..<length rs]"
    by (simp add: upt_conv_Cons map_Suc_upt del: upt_Suc)
  have number: "full_move_number n (t # map fst rs) (Suc i) =
      full_move_number (if rs \<noteq> [] \<and> fst (hd rs) then n + 1 else n) (map fst rs) i" for i
    using Cons by (simp add: full_move_number_def)
  show ?thesis
    unfolding tagged_records_def upt
    by (simp add: full_move_number_def [of n _ 0] number comp_def del: upt_Suc)
qed

lemma plies_analysed_first:
  "plies_analysed lib analyse b eng ms = (Inr rs, eng') \<Longrightarrow> rs \<noteq> [] \<Longrightarrow> fst (hd rs) = turn b"
  by (cases ms) (auto split: prod.splits sum.splits)

lemma plies_analysed_length:
  "plies_analysed lib analyse b eng ms = (Inr rs, eng') \<Longrightarrow> length rs = length ms"
  by (induction ms arbitrary: b eng rs) (auto split: prod.splits sum.splits)

text \<open>
  The loop of \<^verbatim>\<open>analyze_game\<close>, started anywhere in a game: up to the first illegal move
  it appends the tagged records of every ply to the result it was given.
\<close>

lemma analyze_moves_records:
  assumes "first_illegal lib b pre m"
    and "plies_analysed lib analyse b eng pre = (Inr rs, eng')"
  shows "analyze_moves lib analyse b n acc eng (pre @ m # rest) =
     (Inr \<lparr>game_executed = game_executed acc @ tagged_records n rs executed,
           game_missed = game_missed acc @ tagged_records n rs missed,
           game_allowed = game_allowed acc @ tagged_records n rs allowed\<rparr>, eng')"
  using assms
proof (induction pre arbitrary: b n acc eng rs)
  case Nil
  then show ?case by (simp add: tagged_records_Nil split: if_splits)
next
  case (Cons p ps)
  from Cons.prems(1) have legal: "is_legal lib b p"
    by (simp split: if_splits)
  from Cons.prems(1) legal obtain b' where pushed: "push lib b p = Inr b'" and
      later: "first_illegal lib b' ps m"
    by (auto split: sum.splits)
  from Cons.prems(2) pushed obtain pr e1 rs' where
      here: "analyze_position lib analyse eng b (Some p) = (Inr pr, e1)" and
      there: "plies_analysed lib analyse b' e1 ps = (Inr rs', eng')" and
      rs: "rs = (turn b, pr) # rs'"
    by (auto split: prod.splits sum.splits)
  let ?n = "if turn b' then n + 1 else n"
  have number: "tagged_records (if rs' \<noteq> [] \<and> fst (hd rs') then n + 1 else n) rs' category =
      tagged_records ?n rs' category" for category
  proof (cases "rs' = []")
    case True
    then show ?thesis by (simp add: tagged_records_Nil)
  next
    case False
    with plies_analysed_first [OF there] show ?thesis by simp
  qed
  have "analyze_moves lib analyse b n acc eng ((p # ps) @ m # rest) =
      analyze_moves lib analyse b' ?n (add_tagged acc pr n (turn b)) e1 (ps @ m # rest)"
    using legal pushed here by simp
  also have "\<dots> =
      (Inr \<lparr>game_executed =
              game_executed (add_tagged acc pr n (turn b)) @ tagged_records ?n rs' executed,
            game_missed =
              game_missed (add_tagged acc pr n (turn b)) @ tagged_records ?n rs' missed,
            game_allowed =
              game_allowed (add_tagged acc pr n (turn b)) @ tagged_records ?n rs' allowed\<rparr>,
       eng')"
    by (rule Cons.IH [OF later there])
  finally show ?case
    by (simp add: rs tagged_records_Cons number add_tagged_def)
qed

text \<open>
  C5. Let the mainline of a game be \<open>pre @ m # rest\<close> with \<open>m\<close> its first illegal move, at
  ply \<open>k = length pre + 1\<close>, and let the analyses of the plies \<open>1 .. k - 1\<close> return,
  with the results \<open>rs\<close>. Then \<^verbatim>\<open>analyze_game\<close> returns normally, and what it returns is
  exactly the records of these \<open>k - 1\<close> plies: in each category the records of ply 1,
  then those of ply 2, and so on, each tagged with the full-move number of its ply
  (starting at 1) and the colour that moved. The engine is left in the state it had
  after ply \<open>k - 1\<close>: the illegal move and the moves after it are not analysed, and
  the illegal move raises nothing.
\<close>

theorem analyze_game_stops_at_first_illegal_move:
  assumes "mainline_moves g = pre @ m # rest"
    and "first_illegal lib (starting_board g) pre m"
    and "plies_analysed lib analyse (starting_board g) eng pre = (Inr rs, eng')"
  shows "analyze_game lib analyse eng g =
           (Inr \<lparr>game_executed = tagged_records 1 rs executed,
                 game_missed = tagged_records 1 rs missed,
                 game_allowed = tagged_records 1 rs allowed\<rparr>, eng') \<and>
         length rs = length pre"
  using assms analyze_moves_records [OF assms(2,3), of 1 _ rest] plies_analysed_length [OF assms(3)]
  by (simp add: analyze_game_def)

text \<open>
  The theorem on a game of five moves whose fourth move starts from an empty square:
  the result holds the records of the three plies before it, tagged with move 1 and
  White, move 1 and Black, move 2 and White.
\<close>

theorem analyze_game_stops_at_first_illegal_move_witness:
  "first_illegal plain_lib reply_skewer_board [Move 6 7, Move 59 58, Move 7 6] (Move 20 21) \<and>
   plies_analysed plain_lib scripted reply_skewer_board [] [Move 6 7, Move 59 58, Move 7 6] =
     (Inr [(True, \<lparr>executed = [Skewer ROOK ''e8'' QUEEN ''e5'' ROOK ''e2''],
                   missed = [], allowed = []\<rparr>),
           (False, \<lparr>executed = [Skewer QUEEN ''e5'' KING ''c8'' ROOK ''e8''],
                    missed = [], allowed = []\<rparr>),
           (True, \<lparr>executed = [Skewer ROOK ''e8'' QUEEN ''e5'' ROOK ''e2''],
                   missed = [], allowed = []\<rparr>)], []) \<and>
   analyze_game plain_lib scripted []
     \<lparr>starting_board = reply_skewer_board,
      mainline_moves = [Move 6 7, Move 59 58, Move 7 6, Move 20 21, Move 60 52]\<rparr> =
   (Inr \<lparr>game_executed =
           [\<lparr>base = Skewer ROOK ''e8'' QUEEN ''e5'' ROOK ''e2'', move_number = 1,
             color_name = ''white''\<rparr>,
            \<lparr>base = Skewer QUEEN ''e5'' KING ''c8'' ROOK ''e8'', move_number = 1,
             color_name = ''black''\<rparr>,
            \<lparr>base = Skewer ROOK ''e8'' QUEEN ''e5'' ROOK ''e2'', move_number = 2,
             color_name = ''white''\<rparr>],
         game_missed = [], game_allowed = []\<rparr>, [])"
proof -
  let ?rs = "[(True, \<lparr>executed = [Skewer ROOK ''e8'' QUEEN ''e5'' ROOK ''e2''],
                      missed = [], allowed = []\<rparr>),
              (False, \<lparr>executed = [Skewer QUEEN ''e5'' KING ''c8'' ROOK ''e8''],
                       missed = [], allowed = []\<rparr>),
              (True, \<lparr>executed = [Skewer ROOK ''e8'' QUEEN ''e5'' ROOK ''e2''],
                      missed = [], allowed = []\<rparr>)]"
  have illegal:
    "first_illegal plain_lib reply_skewer_board [Move 6 7, Move 59 58, Move 7 6] (Move 20 21)"
    by code_simp
  have plies:
    "plies_analysed plain_lib scripted reply_skewer_board [] [Move 6 7, Move 59 58, Move 7 6] =
       (Inr ?rs, [])"
    by code_simp
  have records: "tagged_records 1 ?rs executed =
      [\<lparr>base = Skewer ROOK ''e8'' QUEEN ''e5'' ROOK ''e2'', move_number = 1,
        color_name = ''white''\<rparr>,
       \<lparr>base = Skewer QUEEN ''e5'' KING ''c8'' ROOK ''e8'', move_number = 1,
        color_name = ''black''\<rparr>,
       \<lparr>base = Skewer ROOK ''e8'' QUEEN ''e5'' ROOK ''e2'', move_number = 2,
        color_name = ''white''\<rparr>]"
    "tagged_records 1 ?rs missed = []" "tagged_records 1 ?rs allowed = []"
    by code_simp+
  from analyze_game_stops_at_first_illegal_move
    [of "\<lparr>starting_board = reply_skewer_board,
          mainline_moves = [Move 6 7, Move 59 58, Move 7 6, Move 20 21, Move 60 52]\<rparr>"
        "[Move 6 7, Move 59 58, Move 7 6]" "Move 20 21" "[Move 60 52]" plain_lib scripted "[]"
        ?rs "[]"]
    illegal plies records
  show ?thesis by simp
qed

end
